theory Spec2Isabelle
  imports Main "HOL-Library.Word"
begin

section \<open>Data model of btn.h and btn.c\<close>

text \<open>The enumeration \<^verbatim>\<open>INPUT_t\<close> of btn.h, in declaration order.\<close>

datatype INPUT_t =
    INPUT_IDLE
  | INPUT_UP
  | INPUT_DOWN
  | INPUT_DOUBLE_UP
  | INPUT_DOUBLE_DOWN
  | INPUT_SAVE

text \<open>
  \<^verbatim>\<open>ButtonState_t\<close> overlays PORTB with two one-bit fields, \<^verbatim>\<open>DOWN\<close> and \<^verbatim>\<open>UP\<close>, and six
  unnamed bits that btn.c never reads. A one-bit field is a truth value: \<open>True\<close> is bit
  value 1 (line high), \<open>False\<close> is bit value 0 (line low). The lines are active-low.
\<close>

record ButtonState_t =
  DOWN :: bool
  UP :: bool

definition PRESSED :: "bool \<Rightarrow> bool" where
  "PRESSED b = (\<not> b)"

definition RELEASED :: "bool \<Rightarrow> bool" where
  "RELEASED b = b"

definition BUTTON_CHANGE :: "ButtonState_t \<Rightarrow> ButtonState_t \<Rightarrow> bool" where
  "BUTTON_CHANGE a b = ((UP a \<noteq> UP b) \<or> (DOWN a \<noteq> DOWN b))"

text \<open>The four shapes of a sample, named as in the specification.\<close>

definition UpOnly :: ButtonState_t where
  "UpOnly = \<lparr>DOWN = True, UP = False\<rparr>"

definition DownOnly :: ButtonState_t where
  "DownOnly = \<lparr>DOWN = False, UP = True\<rparr>"

definition Both :: ButtonState_t where
  "Both = \<lparr>DOWN = False, UP = False\<rparr>"

definition Neither :: ButtonState_t where
  "Neither = \<lparr>DOWN = True, UP = True\<rparr>"

record Debounce_t =
  count :: "8 word"
  last_state :: ButtonState_t

definition DEBOUNCE_THRESHOLD :: nat where
  "DEBOUNCE_THRESHOLD = 200"

record InputState_t =
  save_hold :: "8 word"
  double_click_timer :: "8 word"
  waiting_for_second_up :: bool
  waiting_for_second_down :: bool
  state :: INPUT_t

definition SAVE_HOLD_THRESHOLD :: nat where
  "SAVE_HOLD_THRESHOLD = 60"

definition DOUBLE_CLICK_WINDOW :: nat where
  "DOUBLE_CLICK_WINDOW = 10"

section \<open>The debouncer\<close>

text \<open>
  The static \<^verbatim>\<open>debouncer\<close> of \<^verbatim>\<open>btn_debounce\<close> as it is initialised: the all-zero
  \<^verbatim>\<open>last_state\<close> has both bits 0.
\<close>

definition debouncer_init :: Debounce_t where
  "debouncer_init = \<lparr>count = 0, last_state = \<lparr>DOWN = False, UP = False\<rparr>\<rparr>"

text \<open>
  \<^verbatim>\<open>btn_debounce\<close>, with the static passed in and returned. The comparison with the
  threshold is made on the promoted (unsigned) value of the 8-bit counter; \<open>+ 1\<close> on the
  word wraps as \<^verbatim>\<open>count++\<close> on a \<^verbatim>\<open>uint8_t\<close> does.
\<close>

definition btn_debounce :: "Debounce_t \<Rightarrow> ButtonState_t \<Rightarrow> bool \<times> Debounce_t" where
  "btn_debounce debouncer now_btn =
    (let d1 = (if BUTTON_CHANGE (last_state debouncer) now_btn
               then debouncer\<lparr>count := 0, last_state := now_btn\<rparr>
               else debouncer\<lparr>count := count debouncer + 1\<rparr>)
     in if DEBOUNCE_THRESHOLD \<le> unat (count d1)
        then (True, d1\<lparr>count := 0\<rparr>)
        else (False, d1))"

text \<open>One call per tick over a list of samples: the returned values, and the final static.\<close>

fun debounce_trace :: "Debounce_t \<Rightarrow> ButtonState_t list \<Rightarrow> bool list" where
  "debounce_trace d [] = []"
| "debounce_trace d (b # bs) = fst (btn_debounce d b) # debounce_trace (snd (btn_debounce d b)) bs"

fun debounce_run :: "Debounce_t \<Rightarrow> ButtonState_t list \<Rightarrow> Debounce_t" where
  "debounce_run d [] = d"
| "debounce_run d (b # bs) = debounce_run (snd (btn_debounce d b)) bs"

section \<open>The gesture recogniser\<close>

definition input_init :: InputState_t where
  "input_init = \<lparr>save_hold = 0, double_click_timer = 0, waiting_for_second_up = False,
     waiting_for_second_down = False, state = INPUT_IDLE\<rparr>"

text \<open>Lines 84 to 93 of btn.c: the countdown of the double-click timer.\<close>

definition timer_countdown :: "InputState_t \<Rightarrow> InputState_t" where
  "timer_countdown input =
    (if 0 < unat (double_click_timer input)
     then (let i1 = input\<lparr>double_click_timer := double_click_timer input - 1\<rparr>
           in if double_click_timer i1 = 0
              then i1\<lparr>waiting_for_second_up := False, waiting_for_second_down := False\<rparr>
              else i1)
     else input)"

text \<open>Lines 95 to 183 of btn.c: the \<^verbatim>\<open>switch\<close> on the state, branch by branch.\<close>

definition gesture_switch :: "InputState_t \<Rightarrow> ButtonState_t \<Rightarrow> InputState_t" where
  "gesture_switch input btn =
    (case state input of
       INPUT_IDLE \<Rightarrow>
         if PRESSED (UP btn) \<and> RELEASED (DOWN btn) then
           (if waiting_for_second_up input
            then input\<lparr>waiting_for_second_up := False, double_click_timer := 0,
                   state := INPUT_DOUBLE_UP\<rparr>
            else input\<lparr>state := INPUT_UP\<rparr>)
         else if RELEASED (UP btn) \<and> PRESSED (DOWN btn) then
           (if waiting_for_second_down input
            then input\<lparr>waiting_for_second_down := False, double_click_timer := 0,
                   state := INPUT_DOUBLE_DOWN\<rparr>
            else input\<lparr>state := INPUT_DOWN\<rparr>)
         else if PRESSED (UP btn) \<and> PRESSED (DOWN btn) then
           (let i1 = input\<lparr>save_hold := save_hold input + 1\<rparr>
            in if SAVE_HOLD_THRESHOLD \<le> unat (save_hold i1)
               then i1\<lparr>save_hold := 0, state := INPUT_SAVE\<rparr>
               else i1\<lparr>state := INPUT_IDLE\<rparr>)
         else input\<lparr>state := INPUT_IDLE\<rparr>
     | INPUT_SAVE \<Rightarrow>
         if PRESSED (UP btn) \<and> PRESSED (DOWN btn) then input\<lparr>state := INPUT_SAVE\<rparr>
         else input\<lparr>state := INPUT_IDLE\<rparr>
     | INPUT_UP \<Rightarrow>
         if PRESSED (UP btn) \<and> RELEASED (DOWN btn) then input\<lparr>state := INPUT_UP\<rparr>
         else if RELEASED (UP btn) \<and> PRESSED (DOWN btn) then input\<lparr>state := INPUT_DOWN\<rparr>
         else if RELEASED (UP btn) \<and> RELEASED (DOWN btn) then
           input\<lparr>waiting_for_second_up := True,
                 double_click_timer := of_nat DOUBLE_CLICK_WINDOW, state := INPUT_IDLE\<rparr>
         else if PRESSED (UP btn) \<and> PRESSED (DOWN btn) then input\<lparr>state := INPUT_IDLE\<rparr>
         else input
     | INPUT_DOWN \<Rightarrow>
         if PRESSED (UP btn) \<and> RELEASED (DOWN btn) then input\<lparr>state := INPUT_UP\<rparr>
         else if RELEASED (UP btn) \<and> PRESSED (DOWN btn) then input\<lparr>state := INPUT_DOWN\<rparr>
         else if RELEASED (UP btn) \<and> RELEASED (DOWN btn) then
           input\<lparr>waiting_for_second_down := True,
                 double_click_timer := of_nat DOUBLE_CLICK_WINDOW, state := INPUT_IDLE\<rparr>
         else if PRESSED (UP btn) \<and> PRESSED (DOWN btn) then input\<lparr>state := INPUT_IDLE\<rparr>
         else input
     | INPUT_DOUBLE_UP \<Rightarrow>
         if RELEASED (UP btn) \<and> RELEASED (DOWN btn) then input\<lparr>state := INPUT_IDLE\<rparr>
         else input\<lparr>state := INPUT_DOUBLE_UP\<rparr>
     | INPUT_DOUBLE_DOWN \<Rightarrow>
         if RELEASED (UP btn) \<and> RELEASED (DOWN btn) then input\<lparr>state := INPUT_IDLE\<rparr>
         else input\<lparr>state := INPUT_DOUBLE_DOWN\<rparr>)"

text \<open>\<^verbatim>\<open>btn_gesture\<close>: the countdown, the switch, and the state as the returned value.\<close>

definition btn_gesture :: "InputState_t \<Rightarrow> ButtonState_t \<Rightarrow> INPUT_t \<times> InputState_t" where
  "btn_gesture input btn =
    (let i1 = gesture_switch (timer_countdown input) btn in (state i1, i1))"

text \<open>One call per confirmed tick over a list of stable samples.\<close>

fun gesture_trace :: "InputState_t \<Rightarrow> ButtonState_t list \<Rightarrow> INPUT_t list" where
  "gesture_trace s [] = []"
| "gesture_trace s (b # bs) = fst (btn_gesture s b) # gesture_trace (snd (btn_gesture s b)) bs"

fun gesture_run :: "InputState_t \<Rightarrow> ButtonState_t list \<Rightarrow> InputState_t" where
  "gesture_run s [] = s"
| "gesture_run s (b # bs) = gesture_run (snd (btn_gesture s b)) bs"

text \<open>
  A release of a single click: the branches of \<^verbatim>\<open>INPUT_UP\<close> and \<^verbatim>\<open>INPUT_DOWN\<close> that set a
  waiting flag and load the timer with the window.
\<close>

definition click_release :: "InputState_t \<Rightarrow> ButtonState_t \<Rightarrow> bool" where
  "click_release input btn =
    ((state input = INPUT_UP \<or> state input = INPUT_DOWN) \<and>
     RELEASED (UP btn) \<and> RELEASED (DOWN btn))"

text \<open>A down press that the \<^verbatim>\<open>INPUT_IDLE\<close> branch sees.\<close>

definition idle_down_press :: "InputState_t \<Rightarrow> ButtonState_t \<Rightarrow> bool" where
  "idle_down_press input btn =
    (state input = INPUT_IDLE \<and> RELEASED (UP btn) \<and> PRESSED (DOWN btn))"

text \<open>
  A run of confirmed inputs on which no single click is released and no down press
  arrives in \<^verbatim>\<open>INPUT_IDLE\<close>.
\<close>

fun undisturbed :: "InputState_t \<Rightarrow> ButtonState_t list \<Rightarrow> bool" where
  "undisturbed s [] = True"
| "undisturbed s (b # bs) =
    (if click_release s b then False
     else if idle_down_press s b then False
     else undisturbed (snd (btn_gesture s b)) bs)"

section \<open>The per-tick entry point\<close>

text \<open>
  The statics reached from \<^verbatim>\<open>btn_timer\<close>, and \<open>consumer\<close>: the part of the world outside
  btn.c that the report callback acts on. The pointer \<^verbatim>\<open>btn_report_gesture\<close> is \<open>None\<close>
  while nothing has been assigned to it (it is zero-initialised); a call through it then
  is a fault and not a result.
\<close>

datatype fault = NullCallback

record 'c Btn_t =
  debouncer :: Debounce_t
  input :: InputState_t
  last_input :: INPUT_t
  consumer :: 'c

definition btn_start :: "'c \<Rightarrow> 'c Btn_t" where
  "btn_start c = \<lparr>debouncer = debouncer_init, input = input_init, last_input = INPUT_IDLE,
     consumer = c\<rparr>"

definition btn_timer ::
  "(INPUT_t \<Rightarrow> 'c \<Rightarrow> 'c) option \<Rightarrow> ButtonState_t \<Rightarrow> 'c Btn_t \<Rightarrow> fault + 'c Btn_t" where
  "btn_timer btn_report_gesture button_state m =
    (let m1 = m\<lparr>debouncer := snd (btn_debounce (debouncer m) button_state)\<rparr>
     in if fst (btn_debounce (debouncer m) button_state) then
          (let inp = fst (btn_gesture (input m1) button_state);
               m2 = m1\<lparr>input := snd (btn_gesture (input m1) button_state)\<rparr>
           in if inp \<noteq> last_input m2 then
                (let m3 = m2\<lparr>last_input := inp\<rparr>
                 in case btn_report_gesture of
                      None \<Rightarrow> Inl NullCallback
                    | Some f \<Rightarrow> Inr (m3\<lparr>consumer := f inp (consumer m3)\<rparr>))
              else Inr m2)
        else Inr m1)"

text \<open>A run of ticks stops at the first fault.\<close>

fun timer_run ::
  "(INPUT_t \<Rightarrow> 'c \<Rightarrow> 'c) option \<Rightarrow> ButtonState_t list \<Rightarrow> 'c Btn_t \<Rightarrow> fault + 'c Btn_t" where
  "timer_run cb [] m = Inr m"
| "timer_run cb (b # bs) m =
    (case btn_timer cb b m of Inl e \<Rightarrow> Inl e | Inr m' \<Rightarrow> timer_run cb bs m')"

text \<open>Whether this tick reports: the debouncer confirms and the gesture is a new one.\<close>

definition gesture_changes :: "'c Btn_t \<Rightarrow> ButtonState_t \<Rightarrow> bool" where
  "gesture_changes m button_state =
    (fst (btn_debounce (debouncer m) button_state) \<and>
     fst (btn_gesture (input m) button_state) \<noteq> last_input m)"

text \<open>
  The values \<^verbatim>\<open>btn_gesture\<close> returns along a run of ticks: one for each tick that the
  debouncer confirms, in order.
\<close>

fun tick_gestures :: "Debounce_t \<Rightarrow> InputState_t \<Rightarrow> ButtonState_t list \<Rightarrow> INPUT_t list" where
  "tick_gestures d s [] = []"
| "tick_gestures d s (b # bs) =
    (if fst (btn_debounce d b)
     then fst (btn_gesture s b) # tick_gestures (snd (btn_debounce d b)) (snd (btn_gesture s b)) bs
     else tick_gestures (snd (btn_debounce d b)) s bs)"

text \<open>A callback that keeps the list of the gestures it has been called with.\<close>

definition record_gesture :: "INPUT_t \<Rightarrow> INPUT_t list \<Rightarrow> INPUT_t list" where
  "record_gesture g calls = calls @ [g]"

section \<open>Auxiliary facts\<close>

lemmas shape_defs = UpOnly_def DownOnly_def Both_def Neither_def
lemmas line_defs = PRESSED_def RELEASED_def
lemmas gesture_defs = btn_gesture_def gesture_switch_def Let_def

subsection \<open>Eight-bit counters\<close>

lemma unat_inc8: "unat (w :: 8 word) < 255 \<Longrightarrow> unat (w + 1) = Suc (unat w)"
  by (simp add: unat_word_ariths)

lemma unat_dec8: "0 < unat (w :: 8 word) \<Longrightarrow> unat (w - 1) = unat w - 1"
  by (simp add: unat_minus_one unat_gt_0)

lemma unat_one8: "(unat (w :: 8 word) = Suc 0) = (w = 1)"
  by (simp add: word_unat_eq_iff)

subsection \<open>Runs of the debouncer\<close>

lemma debounce_trace_append:
  "debounce_trace d (xs @ ys) = debounce_trace d xs @ debounce_trace (debounce_run d xs) ys"
  by (induction xs arbitrary: d) simp_all

lemma debounce_run_append:
  "debounce_run d (xs @ ys) = debounce_run (debounce_run d xs) ys"
  by (induction xs arbitrary: d) simp_all

lemma length_debounce_trace [simp]: "length (debounce_trace d xs) = length xs"
  by (induction xs arbitrary: d) simp_all

text \<open>A tick that sees a change restarts the counter and confirms nothing.\<close>

lemma debounce_change:
  "BUTTON_CHANGE (last_state d) b \<Longrightarrow>
     btn_debounce d b = (False, d\<lparr>count := 0, last_state := b\<rparr>)"
  by (simp add: btn_debounce_def DEBOUNCE_THRESHOLD_def)

text \<open>A tick that sees the retained sample counts, and confirms when the count is full.\<close>

lemma debounce_same:
  "\<not> BUTTON_CHANGE (last_state d) b \<Longrightarrow> unat (count d) < DEBOUNCE_THRESHOLD \<Longrightarrow>
     btn_debounce d b =
       (Suc (unat (count d)) = DEBOUNCE_THRESHOLD,
        d\<lparr>count := (if Suc (unat (count d)) = DEBOUNCE_THRESHOLD then 0 else count d + 1)\<rparr>)"
  by (auto simp add: btn_debounce_def DEBOUNCE_THRESHOLD_def Let_def unat_inc8)

lemma no_change_refl [simp]: "\<not> BUTTON_CHANGE b b"
  by (simp add: BUTTON_CHANGE_def)

lemma threshold_dvd_step:
  assumes "c < DEBOUNCE_THRESHOLD"
  shows "(Suc c = DEBOUNCE_THRESHOLD) = (DEBOUNCE_THRESHOLD dvd (c + 1))"
  using assms by (auto simp add: DEBOUNCE_THRESHOLD_def dest: dvd_imp_le)

text \<open>
  While the retained sample keeps arriving, the tick \<open>i\<close> of the run (counted from 1)
  confirms exactly when the count it started from plus \<open>i\<close> is a multiple of the
  threshold.
\<close>

lemma debounce_held:
  "last_state d = b \<Longrightarrow> unat (count d) < DEBOUNCE_THRESHOLD \<Longrightarrow>
     debounce_trace d (replicate n b) =
       map (\<lambda>i. DEBOUNCE_THRESHOLD dvd (unat (count d) + i)) [1..<Suc n]"
proof (induction n arbitrary: d)
  case 0
  then show ?case by simp
next
  case (Suc n)
  let ?c = "unat (count d)"
  let ?d' = "snd (btn_debounce d b)"
  have step: "btn_debounce d b = (Suc ?c = DEBOUNCE_THRESHOLD,
        d\<lparr>count := (if Suc ?c = DEBOUNCE_THRESHOLD then 0 else count d + 1)\<rparr>)"
    using Suc.prems by (simp add: debounce_same)
  have c': "unat (count ?d') = Suc ?c mod DEBOUNCE_THRESHOLD"
    using Suc.prems(2) by (auto simp add: step unat_inc8 DEBOUNCE_THRESHOLD_def)
  have l': "last_state ?d' = b" using Suc.prems(1) by (simp add: step)
  have b': "unat (count ?d') < DEBOUNCE_THRESHOLD"
    unfolding c' by (simp add: DEBOUNCE_THRESHOLD_def)
  have ih: "debounce_trace ?d' (replicate n b) =
       map (\<lambda>i. DEBOUNCE_THRESHOLD dvd (unat (count ?d') + i)) [1..<Suc n]"
    using l' b' by (rule Suc.IH)
  have shift: "DEBOUNCE_THRESHOLD dvd (Suc ?c mod DEBOUNCE_THRESHOLD + i) =
       (DEBOUNCE_THRESHOLD dvd (?c + Suc i))" for i
    by (metis add_Suc_right add_Suc dvd_eq_mod_eq_0 mod_add_left_eq)
  have "[1..<Suc (Suc n)] = 1 # map Suc [1..<Suc n]"
    by (simp add: upt_conv_Cons map_Suc_upt del: upt_Suc)
  then have "map (\<lambda>i. DEBOUNCE_THRESHOLD dvd (?c + i)) [1..<Suc (Suc n)] =
      (DEBOUNCE_THRESHOLD dvd (?c + 1)) #
        map (\<lambda>i. DEBOUNCE_THRESHOLD dvd (?c + Suc i)) [1..<Suc n]"
    by (simp add: comp_def del: upt_Suc)
  also have "\<dots> = fst (btn_debounce d b) # debounce_trace ?d' (replicate n b)"
    unfolding ih c' using Suc.prems(2) by (simp add: step shift threshold_dvd_step del: upt_Suc)
  finally show ?case by simp
qed

text \<open>The same from the tick of the change, which is tick 0 of the run.\<close>

lemma debounce_from_change:
  assumes "BUTTON_CHANGE (last_state d) b"
  shows "debounce_trace d (replicate (Suc n) b) =
           map (\<lambda>i. 0 < i \<and> DEBOUNCE_THRESHOLD dvd i) [0..<Suc n]"
proof -
  let ?d' = "d\<lparr>count := 0, last_state := b\<rparr>"
  have "debounce_trace ?d' (replicate n b) =
      map (\<lambda>i. DEBOUNCE_THRESHOLD dvd (unat (count ?d') + i)) [1..<Suc n]"
    by (rule debounce_held) (simp_all add: DEBOUNCE_THRESHOLD_def)
  then have held: "debounce_trace ?d' (replicate n b) =
      map (\<lambda>i. DEBOUNCE_THRESHOLD dvd i) [1..<Suc n]"
    by simp
  have "[0..<Suc n] = 0 # [1..<Suc n]"
    by (simp add: upt_conv_Cons del: upt_Suc)
  then have "map (\<lambda>i. 0 < i \<and> DEBOUNCE_THRESHOLD dvd i) [0..<Suc n] =
      False # map (\<lambda>i. 0 < i \<and> DEBOUNCE_THRESHOLD dvd i) [1..<Suc n]"
    by (simp del: upt_Suc)
  also have "map (\<lambda>i. 0 < i \<and> DEBOUNCE_THRESHOLD dvd i) [1..<Suc n] =
      map (\<lambda>i. DEBOUNCE_THRESHOLD dvd i) [1..<Suc n]"
    by (rule map_cong) auto
  finally show ?thesis
    using assms held by (simp add: debounce_change del: upt_Suc)
qed

text \<open>Below the threshold a tick confirms nothing, and the count grows by one at most.\<close>

lemma debounce_count_step:
  "unat (count d) < 199 \<Longrightarrow>
     \<not> fst (btn_debounce d b) \<and> unat (count (snd (btn_debounce d b))) \<le> Suc (unat (count d))"
  by (auto simp add: btn_debounce_def DEBOUNCE_THRESHOLD_def Let_def unat_inc8)

lemma debounce_quiet:
  "unat (count d) + Suc j < DEBOUNCE_THRESHOLD \<Longrightarrow> j < length ys \<Longrightarrow>
     \<not> debounce_trace d ys ! j"
proof (induction ys arbitrary: d j)
  case Nil
  then show ?case by simp
next
  case (Cons y ys)
  have c: "unat (count d) < 199" using Cons.prems(1) by (simp add: DEBOUNCE_THRESHOLD_def)
  note st = debounce_count_step [OF c, of y]
  show ?case
  proof (cases j)
    case 0
    then show ?thesis using st by simp
  next
    case (Suc i)
    have "unat (count (snd (btn_debounce d y))) + Suc i < DEBOUNCE_THRESHOLD"
      using st Cons.prems(1) Suc by simp
    moreover have "i < length ys" using Cons.prems(2) Suc by simp
    ultimately have "\<not> debounce_trace (snd (btn_debounce d y)) ys ! i" by (rule Cons.IH)
    then show ?thesis using Suc by simp
  qed
qed

subsection \<open>Runs of the gesture recogniser\<close>

lemma gesture_run_append: "gesture_run s (xs @ ys) = gesture_run (gesture_run s xs) ys"
  by (induction xs arbitrary: s) simp_all

lemma gesture_trace_append:
  "gesture_trace s (xs @ ys) = gesture_trace s xs @ gesture_trace (gesture_run s xs) ys"
  by (induction xs arbitrary: s) simp_all

lemma timer_countdown_save_hold [simp]: "save_hold (timer_countdown s) = save_hold s"
  by (simp add: timer_countdown_def Let_def)

lemma timer_countdown_state [simp]: "state (timer_countdown s) = state s"
  by (simp add: timer_countdown_def Let_def)

lemma timer_countdown_timer:
  "unat (double_click_timer (timer_countdown s)) = unat (double_click_timer s) - 1"
  by (auto simp add: timer_countdown_def Let_def unat_dec8 unat_gt_0)

text \<open>The countdown clears a flag exactly on the tick that takes the timer from 1 to 0.\<close>

lemma timer_countdown_up:
  "waiting_for_second_up (timer_countdown s) =
     (waiting_for_second_up s \<and> unat (double_click_timer s) \<noteq> 1)"
  by (auto simp add: timer_countdown_def Let_def unat_one8)

lemma timer_countdown_down:
  "waiting_for_second_down (timer_countdown s) =
     (waiting_for_second_down s \<and> unat (double_click_timer s) \<noteq> 1)"
  by (auto simp add: timer_countdown_def Let_def unat_one8)

lemma idle_neither:
  "state s = INPUT_IDLE \<Longrightarrow>
     btn_gesture s Neither = (INPUT_IDLE, (timer_countdown s)\<lparr>state := INPUT_IDLE\<rparr>)"
  by (simp add: gesture_defs shape_defs line_defs)

lemma idle_uponly:
  "state s = INPUT_IDLE \<Longrightarrow> fst (btn_gesture s UpOnly) =
     (if waiting_for_second_up (timer_countdown s) then INPUT_DOUBLE_UP else INPUT_UP)"
  by (simp add: gesture_defs shape_defs line_defs)

lemma idle_uponly_fresh:
  "state s = INPUT_IDLE \<Longrightarrow> \<not> waiting_for_second_up s \<Longrightarrow>
     btn_gesture s UpOnly = (INPUT_UP, (timer_countdown s)\<lparr>state := INPUT_UP\<rparr>)"
  by (simp add: gesture_defs shape_defs line_defs timer_countdown_up)

lemma up_neither:
  "state s = INPUT_UP \<Longrightarrow> btn_gesture s Neither =
     (INPUT_IDLE, (timer_countdown s)\<lparr>waiting_for_second_up := True,
        double_click_timer := of_nat DOUBLE_CLICK_WINDOW, state := INPUT_IDLE\<rparr>)"
  by (simp add: gesture_defs shape_defs line_defs)

lemma idle_neither_trace:
  "state s = INPUT_IDLE \<Longrightarrow>
     gesture_trace s (replicate n Neither) = replicate n INPUT_IDLE \<and>
     state (gesture_run s (replicate n Neither)) = INPUT_IDLE"
  by (induction n arbitrary: s) (simp_all add: idle_neither)

text \<open>While the timer has not run out, released ticks in idle only count it down.\<close>

lemma idle_neither_countdown:
  "state s = INPUT_IDLE \<Longrightarrow> waiting_for_second_up s \<Longrightarrow>
   n < unat (double_click_timer s) \<Longrightarrow>
     waiting_for_second_up (gesture_run s (replicate n Neither)) \<and>
     unat (double_click_timer (gesture_run s (replicate n Neither))) =
       unat (double_click_timer s) - n"
proof (induction n arbitrary: s)
  case 0
  then show ?case by simp
next
  case (Suc n)
  let ?s' = "(timer_countdown s)\<lparr>state := INPUT_IDLE\<rparr>"
  have t: "unat (double_click_timer ?s') = unat (double_click_timer s) - 1"
    by (simp add: timer_countdown_timer)
  have "state ?s' = INPUT_IDLE" by simp
  moreover have "waiting_for_second_up ?s'"
    using Suc.prems by (simp add: timer_countdown_up)
  moreover have "n < unat (double_click_timer ?s')"
    using Suc.prems t by simp
  ultimately have "waiting_for_second_up (gesture_run ?s' (replicate n Neither)) \<and>
     unat (double_click_timer (gesture_run ?s' (replicate n Neither))) =
       unat (double_click_timer ?s') - n"
    by (rule Suc.IH)
  then show ?case
    using Suc.prems t by (simp add: idle_neither)
qed

lemma idle_neither_clear:
  "state s = INPUT_IDLE \<Longrightarrow> \<not> waiting_for_second_up s \<Longrightarrow>
     \<not> waiting_for_second_up (gesture_run s (replicate n Neither))"
  by (induction n arbitrary: s) (simp_all add: idle_neither timer_countdown_up)

text \<open>Once as many released ticks have passed as the timer held, the flag is gone.\<close>

lemma idle_neither_expired:
  "state s = INPUT_IDLE \<Longrightarrow> 0 < unat (double_click_timer s) \<Longrightarrow>
   unat (double_click_timer s) \<le> Suc n \<Longrightarrow>
     \<not> waiting_for_second_up (timer_countdown (gesture_run s (replicate n Neither)))"
proof (induction n arbitrary: s)
  case 0
  then show ?case by (simp add: timer_countdown_up)
next
  case (Suc n)
  let ?s' = "(timer_countdown s)\<lparr>state := INPUT_IDLE\<rparr>"
  have st: "state ?s' = INPUT_IDLE" by simp
  have t: "unat (double_click_timer ?s') = unat (double_click_timer s) - 1"
    by (simp add: timer_countdown_timer)
  show ?case
  proof (cases "unat (double_click_timer s) = 1")
    case True
    then have "\<not> waiting_for_second_up ?s'" by (simp add: timer_countdown_up)
    then have "\<not> waiting_for_second_up (gesture_run ?s' (replicate n Neither))"
      using st by (rule idle_neither_clear [rotated])
    then show ?thesis using Suc.prems by (simp add: idle_neither timer_countdown_up)
  next
    case False
    then have "0 < unat (double_click_timer ?s')" "unat (double_click_timer ?s') \<le> Suc n"
      using Suc.prems t by simp_all
    with st have
      "\<not> waiting_for_second_up (timer_countdown (gesture_run ?s' (replicate n Neither)))"
      by (rule Suc.IH)
    then show ?thesis using Suc.prems by (simp add: idle_neither)
  qed
qed

text \<open>An up press and its release, from idle with no flag pending.\<close>

lemma up_click:
  assumes "state s = INPUT_IDLE" "\<not> waiting_for_second_up s"
  shows "gesture_trace s [UpOnly, Neither] = [INPUT_UP, INPUT_IDLE]"
    and "state (gesture_run s [UpOnly, Neither]) = INPUT_IDLE"
    and "waiting_for_second_up (gesture_run s [UpOnly, Neither])"
    and "unat (double_click_timer (gesture_run s [UpOnly, Neither])) = DOUBLE_CLICK_WINDOW"
  using assms by (simp_all add: idle_uponly_fresh up_neither DOUBLE_CLICK_WINDOW_def)

text \<open>The hold counter changes on one branch only.\<close>

lemma save_hold_step:
  "save_hold (snd (btn_gesture s b)) =
     (if state s = INPUT_IDLE \<and> PRESSED (UP b) \<and> PRESSED (DOWN b)
      then (if SAVE_HOLD_THRESHOLD \<le> unat (save_hold s + 1) then 0 else save_hold s + 1)
      else save_hold s)"
  by (cases "state s") (auto simp: gesture_defs line_defs)

lemma save_hold_inv_step:
  "unat (save_hold s) < SAVE_HOLD_THRESHOLD \<Longrightarrow>
     unat (save_hold (snd (btn_gesture s b))) < SAVE_HOLD_THRESHOLD"
  by (simp add: save_hold_step SAVE_HOLD_THRESHOLD_def)

lemma save_hold_inv_run:
  "unat (save_hold s) < SAVE_HOLD_THRESHOLD \<Longrightarrow>
     unat (save_hold (gesture_run s xs)) < SAVE_HOLD_THRESHOLD"
  by (induction xs arbitrary: s) (simp_all add: save_hold_inv_step)

lemma save_hold_reachable:
  "unat (save_hold (gesture_run input_init xs)) < SAVE_HOLD_THRESHOLD"
  by (rule save_hold_inv_run) (simp add: input_init_def SAVE_HOLD_THRESHOLD_def)

text \<open>Holding both lines: the way into save, and staying there.\<close>

lemma idle_both:
  "state s = INPUT_IDLE \<Longrightarrow> btn_gesture s Both =
     (if SAVE_HOLD_THRESHOLD \<le> unat (save_hold s + 1)
      then (INPUT_SAVE, (timer_countdown s)\<lparr>save_hold := 0, state := INPUT_SAVE\<rparr>)
      else (INPUT_IDLE, (timer_countdown s)\<lparr>save_hold := save_hold s + 1, state := INPUT_IDLE\<rparr>))"
  by (simp add: gesture_defs shape_defs line_defs)

lemma save_both:
  "state s = INPUT_SAVE \<Longrightarrow>
     btn_gesture s Both = (INPUT_SAVE, (timer_countdown s)\<lparr>state := INPUT_SAVE\<rparr>)"
  by (simp add: gesture_defs shape_defs line_defs)

lemma save_neither:
  "state s = INPUT_SAVE \<Longrightarrow> fst (btn_gesture s Neither) = INPUT_IDLE"
  by (simp add: gesture_defs shape_defs line_defs)

lemma hold_progress:
  "state s = INPUT_IDLE \<Longrightarrow> unat (save_hold s) + n < SAVE_HOLD_THRESHOLD \<Longrightarrow>
     gesture_trace s (replicate n Both) = replicate n INPUT_IDLE \<and>
     state (gesture_run s (replicate n Both)) = INPUT_IDLE \<and>
     unat (save_hold (gesture_run s (replicate n Both))) = unat (save_hold s) + n"
proof (induction n arbitrary: s)
  case 0
  then show ?case by simp
next
  case (Suc n)
  have inc: "unat (save_hold s + 1) = Suc (unat (save_hold s))"
    using Suc.prems(2) by (simp add: unat_inc8 SAVE_HOLD_THRESHOLD_def)
  let ?s' = "(timer_countdown s)\<lparr>save_hold := save_hold s + 1, state := INPUT_IDLE\<rparr>"
  have step: "btn_gesture s Both = (INPUT_IDLE, ?s')"
    using Suc.prems inc by (simp add: idle_both)
  have "state ?s' = INPUT_IDLE" by simp
  moreover have "unat (save_hold ?s') + n < SAVE_HOLD_THRESHOLD"
    using Suc.prems(2) inc by simp
  ultimately have "gesture_trace ?s' (replicate n Both) = replicate n INPUT_IDLE \<and>
     state (gesture_run ?s' (replicate n Both)) = INPUT_IDLE \<and>
     unat (save_hold (gesture_run ?s' (replicate n Both))) = unat (save_hold ?s') + n"
    by (rule Suc.IH)
  then show ?case using inc by (simp add: step)
qed

lemma save_stays:
  "state s = INPUT_SAVE \<Longrightarrow>
     gesture_trace s (replicate n Both) = replicate n INPUT_SAVE \<and>
     state (gesture_run s (replicate n Both)) = INPUT_SAVE \<and>
     save_hold (gesture_run s (replicate n Both)) = save_hold s"
  by (induction n arbitrary: s) (simp_all add: save_both)

lemma save_hold_from_idle:
  assumes "state s = INPUT_IDLE" and h: "unat (save_hold s) < SAVE_HOLD_THRESHOLD"
  shows "gesture_trace s (replicate SAVE_HOLD_THRESHOLD Both @ [Neither]) =
           replicate (SAVE_HOLD_THRESHOLD - 1 - unat (save_hold s)) INPUT_IDLE @
           replicate (Suc (unat (save_hold s))) INPUT_SAVE @ [INPUT_IDLE]"
    and "save_hold (gesture_run s (replicate SAVE_HOLD_THRESHOLD Both)) = 0"
proof -
  define k where "k = unat (save_hold s)"
  define a where "a = SAVE_HOLD_THRESHOLD - 1 - k"
  define p where "p = gesture_run s (replicate a Both)"
  define e where "e = (timer_countdown p)\<lparr>save_hold := 0, state := INPUT_SAVE\<rparr>"
  define f where "f = gesture_run e (replicate k Both)"
  have sum: "SAVE_HOLD_THRESHOLD = a + Suc k" using h by (simp add: a_def k_def)
  have "unat (save_hold s) + a < SAVE_HOLD_THRESHOLD" using sum by (simp add: k_def)
  with assms(1) have "gesture_trace s (replicate a Both) = replicate a INPUT_IDLE \<and>
     state (gesture_run s (replicate a Both)) = INPUT_IDLE \<and>
     unat (save_hold (gesture_run s (replicate a Both))) = unat (save_hold s) + a"
    by (rule hold_progress)
  then have p: "gesture_trace s (replicate a Both) = replicate a INPUT_IDLE"
      "state p = INPUT_IDLE" "unat (save_hold p) = k + a"
    by (simp_all add: p_def k_def)
  have "unat (save_hold p) < 255" using p(3) sum by (simp add: SAVE_HOLD_THRESHOLD_def)
  then have "unat (save_hold p + 1) = SAVE_HOLD_THRESHOLD"
    using p(3) sum by (simp add: unat_inc8)
  then have enter: "btn_gesture p Both = (INPUT_SAVE, e)"
    using p(2) by (simp add: idle_both e_def)
  have "state e = INPUT_SAVE" by (simp add: e_def)
  then have "gesture_trace e (replicate k Both) = replicate k INPUT_SAVE \<and>
     state (gesture_run e (replicate k Both)) = INPUT_SAVE \<and>
     save_hold (gesture_run e (replicate k Both)) = save_hold e"
    by (rule save_stays)
  then have f: "gesture_trace e (replicate k Both) = replicate k INPUT_SAVE"
      "state f = INPUT_SAVE" "save_hold f = 0"
    by (simp_all add: f_def e_def)
  have "replicate SAVE_HOLD_THRESHOLD Both = replicate (a + Suc k) Both"
    using sum by simp
  then have split: "replicate SAVE_HOLD_THRESHOLD Both =
      replicate a Both @ [Both] @ replicate k Both"
    by (simp only: replicate_add replicate_Suc append_Cons append_Nil)
  have run: "gesture_run s (replicate SAVE_HOLD_THRESHOLD Both) = f"
    unfolding split gesture_run_append p_def [symmetric] by (simp add: enter f_def)
  show "save_hold (gesture_run s (replicate SAVE_HOLD_THRESHOLD Both)) = 0"
    unfolding run by (rule f(3))
  have held: "gesture_trace s (replicate SAVE_HOLD_THRESHOLD Both) =
      replicate a INPUT_IDLE @ replicate (Suc k) INPUT_SAVE"
    unfolding split gesture_trace_append gesture_run_append p_def [symmetric]
    using p(1) f(1) by (simp add: enter)
  have "fst (btn_gesture f Neither) = INPUT_IDLE"
    using f(2) by (rule save_neither)
  then have "gesture_trace s (replicate SAVE_HOLD_THRESHOLD Both @ [Neither]) =
           replicate a INPUT_IDLE @ replicate (Suc k) INPUT_SAVE @ [INPUT_IDLE]"
    unfolding gesture_trace_append [of s "replicate SAVE_HOLD_THRESHOLD Both"] run held
    by simp
  then show "gesture_trace s (replicate SAVE_HOLD_THRESHOLD Both @ [Neither]) =
           replicate (SAVE_HOLD_THRESHOLD - 1 - unat (save_hold s)) INPUT_IDLE @
           replicate (Suc (unat (save_hold s))) INPUT_SAVE @ [INPUT_IDLE]"
    by (simp only: a_def k_def)
qed

text \<open>
  A state with the timer at 0 and the down flag set keeps both through every step that
  is neither the release of a single click nor a down press in idle.
\<close>

lemma timer_countdown_idle: "double_click_timer s = 0 \<Longrightarrow> timer_countdown s = s"
  by (simp add: timer_countdown_def)

lemma stale_step:
  assumes "double_click_timer s = 0" "waiting_for_second_down s"
    and "\<not> click_release s b" "\<not> idle_down_press s b"
  shows "double_click_timer (snd (btn_gesture s b)) = 0 \<and>
         waiting_for_second_down (snd (btn_gesture s b))"
  using assms
  by (cases "state s")
     (auto simp add: gesture_defs timer_countdown_idle click_release_def idle_down_press_def)

lemma stale_run:
  "double_click_timer s = 0 \<Longrightarrow> waiting_for_second_down s \<Longrightarrow> undisturbed s bs \<Longrightarrow>
     double_click_timer (gesture_run s bs) = 0 \<and> waiting_for_second_down (gesture_run s bs)"
proof (induction bs arbitrary: s)
  case Nil
  then show ?case by simp
next
  case (Cons b bs)
  from Cons.prems(3) have nb: "\<not> click_release s b" "\<not> idle_down_press s b"
    and rest: "undisturbed (snd (btn_gesture s b)) bs"
    by (simp_all split: if_splits)
  from stale_step [OF Cons.prems(1,2) nb]
  have "double_click_timer (snd (btn_gesture s b)) = 0"
    "waiting_for_second_down (snd (btn_gesture s b))" by simp_all
  then have "double_click_timer (gesture_run (snd (btn_gesture s b)) bs) = 0 \<and>
      waiting_for_second_down (gesture_run (snd (btn_gesture s b)) bs)"
    using rest by (rule Cons.IH)
  then show ?case by simp
qed

lemma stale_double_down:
  "double_click_timer s = 0 \<Longrightarrow> waiting_for_second_down s \<Longrightarrow> state s = INPUT_IDLE \<Longrightarrow>
     fst (btn_gesture s DownOnly) = INPUT_DOUBLE_DOWN"
  by (simp add: gesture_defs timer_countdown_idle shape_defs line_defs)

subsection \<open>Runs of the entry point\<close>

lemma remdups_adj_head: "remdups_adj (x # xs) = x # tl (remdups_adj (x # xs))"
proof -
  have "remdups_adj (x # xs) \<noteq> []" by simp
  moreover have "hd (remdups_adj (x # xs)) = x" by (simp add: hd_remdups_adj)
  ultimately show ?thesis by (metis list.collapse)
qed

lemma fold_remdups_adj_head:
  "fold f (remdups_adj (g # xs)) c = fold f (tl (remdups_adj (g # xs))) (f g c)"
proof -
  obtain ys where ys: "remdups_adj (g # xs) = g # ys"
    by (rule that, rule remdups_adj_head)
  show ?thesis unfolding ys by simp
qed

lemma btn_timer_Some:
  "btn_timer (Some f) b m =
     Inr (if fst (btn_debounce (debouncer m) b)
          then (if fst (btn_gesture (input m) b) \<noteq> last_input m
                then m\<lparr>debouncer := snd (btn_debounce (debouncer m) b),
                       input := snd (btn_gesture (input m) b),
                       last_input := fst (btn_gesture (input m) b),
                       consumer := f (fst (btn_gesture (input m) b)) (consumer m)\<rparr>
                else m\<lparr>debouncer := snd (btn_debounce (debouncer m) b),
                       input := snd (btn_gesture (input m) b)\<rparr>)
          else m\<lparr>debouncer := snd (btn_debounce (debouncer m) b)\<rparr>)"
  by (simp add: btn_timer_def Let_def)

lemma btn_timer_None:
  "btn_timer None b m =
     (if gesture_changes m b then Inl NullCallback else btn_timer (Some f) b m)"
  by (simp add: btn_timer_def gesture_changes_def Let_def)

lemma timer_run_Some:
  "\<exists>m'. timer_run (Some f) bs m = Inr m' \<and>
     consumer m' =
       fold f (tl (remdups_adj (last_input m # tick_gestures (debouncer m) (input m) bs)))
         (consumer m)"
proof (induction bs arbitrary: m)
  case Nil
  then show ?case by simp
next
  case (Cons b bs)
  let ?d = "snd (btn_debounce (debouncer m) b)"
  let ?g = "fst (btn_gesture (input m) b)"
  let ?s = "snd (btn_gesture (input m) b)"
  show ?case
  proof (cases "fst (btn_debounce (debouncer m) b)")
    case False
    let ?m1 = "m\<lparr>debouncer := ?d\<rparr>"
    have "btn_timer (Some f) b m = Inr ?m1" using False by (simp add: btn_timer_Some)
    moreover from Cons.IH [of ?m1] obtain m' where
      "timer_run (Some f) bs ?m1 = Inr m'"
      "consumer m' = fold f (tl (remdups_adj (last_input ?m1 #
          tick_gestures (debouncer ?m1) (input ?m1) bs))) (consumer ?m1)"
      by blast
    ultimately show ?thesis using False by simp
  next
    case True
    show ?thesis
    proof (cases "?g = last_input m")
      case same: True
      let ?m1 = "m\<lparr>debouncer := ?d, input := ?s\<rparr>"
      have "btn_timer (Some f) b m = Inr ?m1" using True same by (simp add: btn_timer_Some)
      moreover from Cons.IH [of ?m1] obtain m' where
        "timer_run (Some f) bs ?m1 = Inr m'"
        "consumer m' = fold f (tl (remdups_adj (last_input ?m1 #
            tick_gestures (debouncer ?m1) (input ?m1) bs))) (consumer ?m1)"
        by blast
      ultimately show ?thesis using True same by simp
    next
      case new: False
      let ?m1 = "m\<lparr>debouncer := ?d, input := ?s, last_input := ?g,
                    consumer := f ?g (consumer m)\<rparr>"
      have "btn_timer (Some f) b m = Inr ?m1" using True new by (simp add: btn_timer_Some)
      moreover from Cons.IH [of ?m1] obtain m' where
        "timer_run (Some f) bs ?m1 = Inr m'"
        "consumer m' = fold f (tl (remdups_adj (last_input ?m1 #
            tick_gestures (debouncer ?m1) (input ?m1) bs))) (consumer ?m1)"
        by blast
      ultimately show ?thesis
        using True new by (simp add: fold_remdups_adj_head)
    qed
  qed
qed

section \<open>Properties of the specification\<close>

text \<open>
  C2, as amended. The ticks of a constant run are counted from the restart of the
  consecutive counter. From a state of the debouncer that retains the sample with the
  counter at 0 (as at power-on with both lines low), the sample held for
  \<open>k * DEBOUNCE_THRESHOLD\<close> ticks makes \<^verbatim>\<open>btn_debounce\<close> return true exactly at the ticks
  \<open>DEBOUNCE_THRESHOLD\<close>, \<open>2 * DEBOUNCE_THRESHOLD\<close>, ..., \<open>k * DEBOUNCE_THRESHOLD\<close>, counted
  from 1, and false at every other tick. When the run starts with a sample that differs
  from the retained one, the tick of the change returns false and leaves the counter at
  0, and the same holds of the \<open>k * DEBOUNCE_THRESHOLD\<close> ticks that follow it: the tick
  of the change is not counted.
\<close>

theorem debounce_periodic:
  "(count d = 0 \<and> last_state d = b \<longrightarrow>
      debounce_trace d (replicate (k * DEBOUNCE_THRESHOLD) b) =
        map (\<lambda>i. DEBOUNCE_THRESHOLD dvd i) [1..<Suc (k * DEBOUNCE_THRESHOLD)]) \<and>
   (BUTTON_CHANGE (last_state d) b \<longrightarrow>
      count (snd (btn_debounce d b)) = 0 \<and> last_state (snd (btn_debounce d b)) = b \<and>
      debounce_trace d (b # replicate (k * DEBOUNCE_THRESHOLD) b) =
        False # map (\<lambda>i. DEBOUNCE_THRESHOLD dvd i) [1..<Suc (k * DEBOUNCE_THRESHOLD)])"
proof -
  have rest: "debounce_trace e (replicate (k * DEBOUNCE_THRESHOLD) b) =
      map (\<lambda>i. DEBOUNCE_THRESHOLD dvd i) [1..<Suc (k * DEBOUNCE_THRESHOLD)]"
    if "count e = 0" "last_state e = b" for e
  proof -
    have "unat (count e) < DEBOUNCE_THRESHOLD"
      using that(1) by (simp add: DEBOUNCE_THRESHOLD_def)
    with that(2) have "debounce_trace e (replicate (k * DEBOUNCE_THRESHOLD) b) =
        map (\<lambda>i. DEBOUNCE_THRESHOLD dvd (unat (count e) + i)) [1..<Suc (k * DEBOUNCE_THRESHOLD)]"
      by (rule debounce_held)
    then show ?thesis using that(1) by simp
  qed
  have changed: "count (snd (btn_debounce d b)) = 0 \<and> last_state (snd (btn_debounce d b)) = b \<and>
      debounce_trace d (b # replicate (k * DEBOUNCE_THRESHOLD) b) =
        False # map (\<lambda>i. DEBOUNCE_THRESHOLD dvd i) [1..<Suc (k * DEBOUNCE_THRESHOLD)]"
    if c: "BUTTON_CHANGE (last_state d) b"
  proof -
    let ?e = "d\<lparr>count := 0, last_state := b\<rparr>"
    have step: "btn_debounce d b = (False, ?e)" using c by (rule debounce_change)
    have "debounce_trace ?e (replicate (k * DEBOUNCE_THRESHOLD) b) =
        map (\<lambda>i. DEBOUNCE_THRESHOLD dvd i) [1..<Suc (k * DEBOUNCE_THRESHOLD)]"
      by (rule rest) simp_all
    then show ?thesis by (simp add: step del: upt_Suc)
  qed
  from rest [of d] changed show ?thesis by blast
qed

theorem debounce_periodic_witness:
  "debounce_trace debouncer_init (replicate (2 * DEBOUNCE_THRESHOLD) Both) =
     map (\<lambda>i. DEBOUNCE_THRESHOLD dvd i) [1..<Suc (2 * DEBOUNCE_THRESHOLD)] \<and>
   debounce_trace debouncer_init (UpOnly # replicate (2 * DEBOUNCE_THRESHOLD) UpOnly) =
     False # map (\<lambda>i. DEBOUNCE_THRESHOLD dvd i) [1..<Suc (2 * DEBOUNCE_THRESHOLD)]"
proof -
  have h1: "count debouncer_init = 0 \<and> last_state debouncer_init = Both"
    by (simp add: debouncer_init_def Both_def)
  have h2: "BUTTON_CHANGE (last_state debouncer_init) UpOnly"
    by (simp add: BUTTON_CHANGE_def debouncer_init_def UpOnly_def)
  from debounce_periodic [of debouncer_init Both 2] h1
  have a: "debounce_trace debouncer_init (replicate (2 * DEBOUNCE_THRESHOLD) Both) =
     map (\<lambda>i. DEBOUNCE_THRESHOLD dvd i) [1..<Suc (2 * DEBOUNCE_THRESHOLD)]"
    by blast
  from debounce_periodic [of debouncer_init UpOnly 2] h2
  have b: "debounce_trace debouncer_init (UpOnly # replicate (2 * DEBOUNCE_THRESHOLD) UpOnly) =
     False # map (\<lambda>i. DEBOUNCE_THRESHOLD dvd i) [1..<Suc (2 * DEBOUNCE_THRESHOLD)]"
    by blast
  from a b show ?thesis by (rule conjI)
qed

text \<open>
  The claim C2 as it is written fails. From power-on, the up line held for
  \<open>2 * 200\<close> consecutive ticks is confirmed once only, on sample 201 of the run: the
  first sample is a change and restarts the counter at 0. With both lines low held from
  power-on, where the first sample is no change, the confirmations come on samples 200
  and 400. No single numbering of the ticks of a run gives both.
\<close>

theorem debounce_periodic_counterexample:
  "debounce_trace debouncer_init (replicate (2 * 200) UpOnly) =
     replicate 200 False @ [True] @ replicate 199 False \<and>
   debounce_trace debouncer_init (replicate (2 * 200 + 1) Both) =
     replicate 199 False @ [True] @ replicate 199 False @ [True, False]"
  by code_simp

text \<open>
  C3. In any sequence of samples \<open>xs\<close>, fed to \<^verbatim>\<open>btn_debounce\<close> from any state of the
  debouncer, if the sample of tick \<open>t\<close> differs from the sample retained then (in the UP
  or in the DOWN line), every tick \<open>j\<close> from \<open>t\<close> through \<open>t + DEBOUNCE_THRESHOLD - 1\<close>
  returns false.
\<close>

theorem debounce_suppression:
  assumes "t < length xs"
    and "BUTTON_CHANGE (last_state (debounce_run d (take t xs))) (xs ! t)"
    and "t \<le> j" "j < t + DEBOUNCE_THRESHOLD" "j < length xs"
  shows "\<not> debounce_trace d xs ! j"
proof -
  let ?dt = "debounce_run d (take t xs)"
  let ?d' = "?dt\<lparr>count := 0, last_state := xs ! t\<rparr>"
  have xs: "xs = take t xs @ xs ! t # drop (Suc t) xs"
    using assms(1) by (simp add: id_take_nth_drop [symmetric])
  have "debounce_trace d xs =
      debounce_trace d (take t xs) @ debounce_trace ?dt (xs ! t # drop (Suc t) xs)"
    using debounce_trace_append [of d "take t xs" "xs ! t # drop (Suc t) xs"] xs by simp
  then have nth: "debounce_trace d xs ! j =
      debounce_trace ?dt (xs ! t # drop (Suc t) xs) ! (j - t)"
    using assms(1,3) by (simp add: nth_append)
  have tr: "debounce_trace ?dt (xs ! t # drop (Suc t) xs) =
      False # debounce_trace ?d' (drop (Suc t) xs)"
    using assms(2) by (simp add: debounce_change)
  show ?thesis
  proof (cases "j = t")
    case True
    then show ?thesis using nth tr by simp
  next
    case False
    then obtain i where i: "j - t = Suc i" using assms(3) by (cases "j - t") simp_all
    have "unat (count ?d') + Suc i < DEBOUNCE_THRESHOLD" using i assms(4) by simp
    moreover have "i < length (drop (Suc t) xs)" using i assms(5) by simp
    ultimately have "\<not> debounce_trace ?d' (drop (Suc t) xs) ! i" by (rule debounce_quiet)
    then show ?thesis using nth tr i by simp
  qed
qed

theorem debounce_suppression_witness:
  "\<not> debounce_trace debouncer_init (Neither # replicate 200 UpOnly) ! 200"
  using debounce_suppression [of 1 "Neither # replicate 200 UpOnly" debouncer_init 200]
  by (simp add: BUTTON_CHANGE_def debouncer_init_def btn_debounce_def shape_defs
        DEBOUNCE_THRESHOLD_def)

text \<open>
  C5, as amended. From idle with no double-click flag pending, the confirmed inputs
  UpOnly, then \<open>m\<close> times Neither, then UpOnly make \<^verbatim>\<open>btn_gesture\<close> return up, idle
  (\<open>m\<close> times) and double-up, whenever the second UpOnly comes fewer than
  \<open>DOUBLE_CLICK_WINDOW\<close> confirmed ticks after the first Neither (\<open>1 \<le> m\<close> and
  \<open>m < DOUBLE_CLICK_WINDOW\<close>: the second UpOnly is the tick \<open>m\<close> after that Neither).
\<close>

theorem double_click_within:
  assumes "state s = INPUT_IDLE" "\<not> waiting_for_second_up s" "\<not> waiting_for_second_down s"
    and "1 \<le> m" "m < DOUBLE_CLICK_WINDOW"
  shows "gesture_trace s (UpOnly # replicate m Neither @ [UpOnly]) =
           INPUT_UP # replicate m INPUT_IDLE @ [INPUT_DOUBLE_UP]"
proof -
  obtain k where m: "m = Suc k" using assms(4) by (cases m) simp_all
  let ?r = "gesture_run s [UpOnly, Neither]"
  let ?q = "gesture_run ?r (replicate k Neither)"
  have r: "state ?r = INPUT_IDLE" "waiting_for_second_up ?r"
      "unat (double_click_timer ?r) = DOUBLE_CLICK_WINDOW"
    using assms(1,2) by (rule up_click)+
  have k: "Suc k < unat (double_click_timer ?r)" using r(3) assms(5) m by simp
  then have "k < unat (double_click_timer ?r)" by simp
  with r(1,2) have q: "waiting_for_second_up ?q \<and>
      unat (double_click_timer ?q) = unat (double_click_timer ?r) - k"
    by (rule idle_neither_countdown)
  have qs: "gesture_trace ?r (replicate k Neither) = replicate k INPUT_IDLE \<and>
      state ?q = INPUT_IDLE"
    using r(1) by (rule idle_neither_trace)
  have "waiting_for_second_up (timer_countdown ?q)"
    using q k by (simp add: timer_countdown_up)
  then have last: "fst (btn_gesture ?q UpOnly) = INPUT_DOUBLE_UP"
    using qs by (simp add: idle_uponly)
  have split: "UpOnly # replicate m Neither @ [UpOnly] =
      [UpOnly, Neither] @ replicate k Neither @ [UpOnly]"
    by (simp add: m)
  have "gesture_trace s ([UpOnly, Neither] @ replicate k Neither @ [UpOnly]) =
      [INPUT_UP, INPUT_IDLE] @ replicate k INPUT_IDLE @ [INPUT_DOUBLE_UP]"
    unfolding gesture_trace_append [of s "[UpOnly, Neither]"]
      gesture_trace_append [of ?r "replicate k Neither"]
    using up_click(1) [OF assms(1,2)] qs last by simp
  then show ?thesis unfolding split by (simp add: m)
qed

theorem double_click_within_witness:
  "gesture_trace input_init (UpOnly # replicate 9 Neither @ [UpOnly]) =
     INPUT_UP # replicate 9 INPUT_IDLE @ [INPUT_DOUBLE_UP]"
  using double_click_within [of input_init 9]
  by (simp add: input_init_def DOUBLE_CLICK_WINDOW_def)

text \<open>
  The claim C5 as it is written fails at the end of the window: when the second UpOnly
  comes exactly \<open>DOUBLE_CLICK_WINDOW\<close> confirmed ticks after the first Neither, the
  countdown of that very tick has taken the timer to 0 and cleared the flag, and
  \<^verbatim>\<open>btn_gesture\<close> returns up.
\<close>

theorem double_click_within_counterexample:
  "gesture_trace input_init (UpOnly # replicate 10 Neither @ [UpOnly]) =
     INPUT_UP # replicate 10 INPUT_IDLE @ [INPUT_UP]"
  by code_simp

text \<open>
  C6. From idle with no double-click flag pending, the confirmed inputs UpOnly, then
  \<open>m\<close> times Neither with \<open>DOUBLE_CLICK_WINDOW \<le> m\<close>, then UpOnly make \<^verbatim>\<open>btn_gesture\<close>
  return up on the second UpOnly, not double-up: when the switch of that call is
  reached, the countdown has cleared the flag.
\<close>

theorem double_click_expired:
  assumes "state s = INPUT_IDLE" "\<not> waiting_for_second_up s" "\<not> waiting_for_second_down s"
    and "DOUBLE_CLICK_WINDOW \<le> m"
  shows "gesture_trace s (UpOnly # replicate m Neither @ [UpOnly]) =
           INPUT_UP # replicate m INPUT_IDLE @ [INPUT_UP]
       \<and> \<not> waiting_for_second_up
             (timer_countdown (gesture_run s (UpOnly # replicate m Neither)))"
proof -
  obtain k where m: "m = Suc k"
    using assms(4) by (cases m) (simp_all add: DOUBLE_CLICK_WINDOW_def)
  let ?r = "gesture_run s [UpOnly, Neither]"
  let ?q = "gesture_run ?r (replicate k Neither)"
  have r: "state ?r = INPUT_IDLE" "waiting_for_second_up ?r"
      "unat (double_click_timer ?r) = DOUBLE_CLICK_WINDOW"
    using assms(1,2) by (rule up_click)+
  have "0 < unat (double_click_timer ?r)" "unat (double_click_timer ?r) \<le> Suc k"
    using r(3) assms(4) m by (simp_all add: DOUBLE_CLICK_WINDOW_def)
  with r(1) have q: "\<not> waiting_for_second_up (timer_countdown ?q)"
    by (rule idle_neither_expired)
  have qs: "gesture_trace ?r (replicate k Neither) = replicate k INPUT_IDLE \<and>
      state ?q = INPUT_IDLE"
    using r(1) by (rule idle_neither_trace)
  have last: "fst (btn_gesture ?q UpOnly) = INPUT_UP"
    using q qs by (simp add: idle_uponly)
  have split: "UpOnly # replicate m Neither @ [UpOnly] =
      [UpOnly, Neither] @ replicate k Neither @ [UpOnly]"
    by (simp add: m)
  have split2: "UpOnly # replicate m Neither = [UpOnly, Neither] @ replicate k Neither"
    by (simp add: m)
  have "gesture_trace s ([UpOnly, Neither] @ replicate k Neither @ [UpOnly]) =
      [INPUT_UP, INPUT_IDLE] @ replicate k INPUT_IDLE @ [INPUT_UP]"
    unfolding gesture_trace_append [of s "[UpOnly, Neither]"]
      gesture_trace_append [of ?r "replicate k Neither"]
    using up_click(1) [OF assms(1,2)] qs last by simp
  moreover have
    "\<not> waiting_for_second_up (timer_countdown (gesture_run s (UpOnly # replicate m Neither)))"
    unfolding split2 gesture_run_append using q by simp
  ultimately show ?thesis unfolding split by (simp add: m)
qed

theorem double_click_expired_witness:
  "gesture_trace input_init (UpOnly # replicate 12 Neither @ [UpOnly]) =
     INPUT_UP # replicate 12 INPUT_IDLE @ [INPUT_UP]"
  using double_click_expired [of input_init 12]
  by (simp add: input_init_def DOUBLE_CLICK_WINDOW_def)

text \<open>
  C7. Whenever the state is double-up, \<^verbatim>\<open>btn_gesture\<close> returns, and leaves as the state,
  double-up for every confirmed input other than Neither (UpOnly, DownOnly or Both), and
  idle for Neither alone.
\<close>

theorem double_up_sticky:
  assumes "state s = INPUT_DOUBLE_UP"
  shows "fst (btn_gesture s b) = (if b = Neither then INPUT_IDLE else INPUT_DOUBLE_UP) \<and>
         state (snd (btn_gesture s b)) = (if b = Neither then INPUT_IDLE else INPUT_DOUBLE_UP)"
  using assms by (cases b) (simp add: gesture_defs shape_defs line_defs)

theorem double_up_sticky_witness:
  "state (gesture_run input_init [UpOnly, Neither, UpOnly]) = INPUT_DOUBLE_UP \<and>
   fst (btn_gesture (gesture_run input_init [UpOnly, Neither, UpOnly]) DownOnly) =
     INPUT_DOUBLE_UP \<and>
   fst (btn_gesture (gesture_run input_init [UpOnly, Neither, UpOnly]) Neither) = INPUT_IDLE"
proof -
  have h: "state (gesture_run input_init [UpOnly, Neither, UpOnly]) = INPUT_DOUBLE_UP"
    by code_simp
  have ne: "DownOnly \<noteq> Neither" by (simp add: shape_defs)
  show ?thesis
    using h ne double_up_sticky [OF h, of DownOnly] double_up_sticky [OF h, of Neither]
    by simp
qed

text \<open>
  C10. After any number of calls of \<^verbatim>\<open>btn_gesture\<close> from the initial state, the hold
  counter is below \<open>SAVE_HOLD_THRESHOLD\<close>; the next call changes it only for Both in
  idle, where it goes up by one, without wrapping, or back to 0 when that reaches
  \<open>SAVE_HOLD_THRESHOLD\<close>, which is exactly when save is entered.
\<close>

theorem save_hold_bounded:
  "unat (save_hold (gesture_run input_init xs)) < SAVE_HOLD_THRESHOLD \<and>
   unat (save_hold (snd (btn_gesture (gesture_run input_init xs) b))) =
     (if state (gesture_run input_init xs) = INPUT_IDLE \<and> b = Both
      then (if Suc (unat (save_hold (gesture_run input_init xs))) = SAVE_HOLD_THRESHOLD
            then 0 else Suc (unat (save_hold (gesture_run input_init xs))))
      else unat (save_hold (gesture_run input_init xs))) \<and>
   (state (gesture_run input_init xs) = INPUT_IDLE \<and> b = Both \<and>
      Suc (unat (save_hold (gesture_run input_init xs))) = SAVE_HOLD_THRESHOLD) =
     (state (gesture_run input_init xs) \<noteq> INPUT_SAVE \<and>
      fst (btn_gesture (gesture_run input_init xs) b) = INPUT_SAVE)"
proof -
  let ?s = "gesture_run input_init xs"
  have bound: "unat (save_hold ?s) < SAVE_HOLD_THRESHOLD" by (rule save_hold_reachable)
  then have inc: "unat (save_hold ?s + 1) = Suc (unat (save_hold ?s))"
    by (simp add: unat_inc8 SAVE_HOLD_THRESHOLD_def)
  have both: "(b = Both) = (PRESSED (UP b) \<and> PRESSED (DOWN b))"
    by (cases b) (auto simp add: shape_defs line_defs)
  have "unat (save_hold (snd (btn_gesture ?s b))) =
     (if state ?s = INPUT_IDLE \<and> b = Both
      then (if Suc (unat (save_hold ?s)) = SAVE_HOLD_THRESHOLD then 0
            else Suc (unat (save_hold ?s)))
      else unat (save_hold ?s))"
    using bound inc by (auto simp add: save_hold_step both)
  moreover have "(state ?s = INPUT_IDLE \<and> b = Both \<and>
      Suc (unat (save_hold ?s)) = SAVE_HOLD_THRESHOLD) =
     (state ?s \<noteq> INPUT_SAVE \<and> fst (btn_gesture ?s b) = INPUT_SAVE)"
    using bound inc by (cases "state ?s") (auto simp add: gesture_defs both line_defs)
  ultimately show ?thesis using bound by blast
qed

theorem save_hold_bounded_witness:
  "unat (save_hold (gesture_run input_init (replicate 59 Both))) < SAVE_HOLD_THRESHOLD \<and>
   unat (save_hold (snd (btn_gesture (gesture_run input_init (replicate 59 Both)) Both))) = 0"
proof -
  have h: "state (gesture_run input_init (replicate 59 Both)) = INPUT_IDLE \<and>
      Suc (unat (save_hold (gesture_run input_init (replicate 59 Both)))) = SAVE_HOLD_THRESHOLD"
    by code_simp
  show ?thesis
    using h save_hold_bounded [of "replicate 59 Both" Both] by simp
qed

text \<open>
  C4. From any idle state that \<^verbatim>\<open>btn_gesture\<close> reaches from its initial state,
  \<open>SAVE_HOLD_THRESHOLD\<close> consecutive confirmed Both inputs end with the gesture save, and
  a confirmed Neither after them returns idle. With \<open>h\<close> the value of the hold counter
  at the start, the first \<open>SAVE_HOLD_THRESHOLD - 1 - h\<close> calls return idle while the
  counter goes up, the next call enters save and resets the counter to 0, and the calls
  that remain stay in save.
\<close>

theorem save_hold_gesture:
  assumes "state (gesture_run input_init xs) = INPUT_IDLE"
  shows "gesture_trace (gesture_run input_init xs) (replicate SAVE_HOLD_THRESHOLD Both @ [Neither]) =
           replicate (SAVE_HOLD_THRESHOLD - 1 - unat (save_hold (gesture_run input_init xs))) INPUT_IDLE @
           replicate (Suc (unat (save_hold (gesture_run input_init xs)))) INPUT_SAVE @ [INPUT_IDLE]
       \<and> save_hold (gesture_run (gesture_run input_init xs) (replicate SAVE_HOLD_THRESHOLD Both)) = 0"
  using save_hold_from_idle [OF assms save_hold_reachable] by simp

theorem save_hold_gesture_witness:
  "gesture_trace input_init (replicate SAVE_HOLD_THRESHOLD Both @ [Neither]) =
     replicate 59 INPUT_IDLE @ [INPUT_SAVE, INPUT_IDLE]"
  using save_hold_gesture [of "[]"]
  by (simp add: input_init_def SAVE_HOLD_THRESHOLD_def)

text \<open>
  C8. With a callback assigned, every run of ticks completes, and what the consumer sees
  is the callback applied once to each gesture that differs from the one before it
  (the one before the first being the last reported gesture), in order: the gestures of
  the confirmed ticks with adjacent repetitions removed. On a single tick the callback
  is called once, with the new gesture, when the tick is confirmed and its gesture
  differs from the last reported one, and not at all otherwise; after a confirmed tick
  the last reported gesture is the gesture of that tick.
\<close>

theorem report_once_per_change:
  "(\<exists>m'. timer_run (Some f) bs m = Inr m' \<and>
      consumer m' =
        fold f (tl (remdups_adj (last_input m # tick_gestures (debouncer m) (input m) bs)))
          (consumer m)) \<and>
   (\<exists>m1. btn_timer (Some f) b m = Inr m1 \<and>
      consumer m1 = (if gesture_changes m b
                     then f (fst (btn_gesture (input m) b)) (consumer m) else consumer m) \<and>
      last_input m1 = (if fst (btn_debounce (debouncer m) b)
                     then fst (btn_gesture (input m) b) else last_input m))"
proof -
  have "\<exists>m1. btn_timer (Some f) b m = Inr m1 \<and>
      consumer m1 = (if gesture_changes m b
                     then f (fst (btn_gesture (input m) b)) (consumer m) else consumer m) \<and>
      last_input m1 = (if fst (btn_debounce (debouncer m) b)
                     then fst (btn_gesture (input m) b) else last_input m)"
    by (simp add: btn_timer_Some gesture_changes_def)
  with timer_run_Some [of f bs m] show ?thesis by (rule conjI)
qed

theorem report_once_per_change_witness:
  "\<exists>m'. timer_run (Some record_gesture)
           (replicate 401 UpOnly @ replicate 201 Neither) (btn_start []) = Inr m' \<and>
         consumer m' = [INPUT_UP, INPUT_IDLE]"
proof -
  have g: "tick_gestures debouncer_init input_init
      (replicate 401 UpOnly @ replicate 201 Neither) = [INPUT_UP, INPUT_UP, INPUT_IDLE]"
    by code_simp
  show ?thesis
    using report_once_per_change
      [of record_gesture "replicate 401 UpOnly @ replicate 201 Neither" "btn_start []",
        THEN conjunct1] g
    by (simp add: btn_start_def record_gesture_def)
qed

text \<open>
  C1, as amended. \<^verbatim>\<open>btn_timer\<close> calls through \<^verbatim>\<open>btn_report_gesture\<close> without a guard. With
  the callback unset, a tick on which the gesture changes is a fault (the call through
  the null pointer); a tick that reports nothing completes, and does what it does with a
  callback assigned. With a callback assigned every tick completes.
\<close>

theorem unguarded_callback:
  "btn_timer None b m =
     (if gesture_changes m b then Inl NullCallback else btn_timer (Some f) b m) \<and>
   (\<exists>m'. btn_timer (Some f) b m = Inr m')"
  by (simp add: btn_timer_None [of b m f] btn_timer_Some)

theorem unguarded_callback_witness:
  "btn_timer None UpOnly (btn_start ()) = btn_timer (Some (\<lambda>g c. c)) UpOnly (btn_start ()) \<and>
   btn_timer None UpOnly (btn_start ()) =
     Inr ((btn_start ())\<lparr>debouncer := \<lparr>count = 0, last_state = UpOnly\<rparr>\<rparr>)"
proof -
  have h: "\<not> gesture_changes (btn_start ()) UpOnly" by code_simp
  have r: "btn_timer (Some (\<lambda>g c. c)) UpOnly (btn_start ()) =
      Inr ((btn_start ())\<lparr>debouncer := \<lparr>count = 0, last_state = UpOnly\<rparr>\<rparr>)"
    by code_simp
  show ?thesis
    using h r unguarded_callback [of UpOnly "btn_start ()" "\<lambda>g c. c"] by simp
qed

text \<open>
  The claim C1 as it is written fails: from power-on with the callback never assigned,
  the up line held for 201 ticks is confirmed on the last of them, the gesture changes
  from idle to up, and the tick ends in the call through the null pointer.
\<close>

theorem unset_callback_counterexample:
  "timer_run None (replicate 201 UpOnly) (btn_start ()) = Inl NullCallback"
  by code_simp

text \<open>
  C9, as amended. The inputs DownOnly, Neither, UpOnly, Neither, UpOnly take
  \<^verbatim>\<open>btn_gesture\<close> from its initial state to a state with the timer at 0 and the down flag
  still set. From any state with the timer at 0 and the down flag set, and after any
  number of confirmed inputs among which no single click is released (and no down press
  has arrived in idle yet), a confirmed DownOnly while in idle returns double-down.
\<close>

theorem stale_down_flag:
  "double_click_timer (gesture_run input_init [DownOnly, Neither, UpOnly, Neither, UpOnly]) = 0 \<and>
   waiting_for_second_down (gesture_run input_init [DownOnly, Neither, UpOnly, Neither, UpOnly]) \<and>
   (double_click_timer s = 0 \<and> waiting_for_second_down s \<and> undisturbed s bs \<and>
    state (gesture_run s bs) = INPUT_IDLE \<longrightarrow>
      fst (btn_gesture (gesture_run s bs) DownOnly) = INPUT_DOUBLE_DOWN)"
proof -
  have "double_click_timer (gesture_run input_init [DownOnly, Neither, UpOnly, Neither, UpOnly]) = 0"
    by code_simp
  moreover have
    "waiting_for_second_down (gesture_run input_init [DownOnly, Neither, UpOnly, Neither, UpOnly])"
    by code_simp
  moreover have "fst (btn_gesture (gesture_run s bs) DownOnly) = INPUT_DOUBLE_DOWN"
    if "double_click_timer s = 0" "waiting_for_second_down s" "undisturbed s bs"
      "state (gesture_run s bs) = INPUT_IDLE"
    using stale_run [OF that(1,2,3)] that(4) by (simp add: stale_double_down)
  ultimately show ?thesis by blast
qed

theorem stale_down_flag_witness:
  "undisturbed (gesture_run input_init [DownOnly, Neither, UpOnly, Neither, UpOnly])
     (DownOnly # replicate 30 Neither) \<and>
   fst (btn_gesture
     (gesture_run (gesture_run input_init [DownOnly, Neither, UpOnly, Neither, UpOnly])
        (DownOnly # replicate 30 Neither)) DownOnly) = INPUT_DOUBLE_DOWN"
proof -
  let ?s = "gesture_run input_init [DownOnly, Neither, UpOnly, Neither, UpOnly]"
  let ?bs = "DownOnly # replicate 30 Neither"
  have u: "undisturbed ?s ?bs" by code_simp
  have i: "state (gesture_run ?s ?bs) = INPUT_IDLE" by code_simp
  show ?thesis
    using u i stale_down_flag [of ?s ?bs] by simp
qed

text \<open>
  The claim C9 as it is written fails where a single click is released in between: the
  release loads the timer again, and when it runs out both flags are cleared; the next
  DownOnly in idle returns down.
\<close>

theorem stale_down_flag_counterexample:
  "double_click_timer (gesture_run input_init [DownOnly, Neither, UpOnly, Neither, UpOnly]) = 0 \<and>
   waiting_for_second_down (gesture_run input_init [DownOnly, Neither, UpOnly, Neither, UpOnly]) \<and>
   gesture_trace (gesture_run input_init [DownOnly, Neither, UpOnly, Neither, UpOnly])
     ([Neither, UpOnly] @ replicate 11 Neither @ [DownOnly]) =
     [INPUT_IDLE, INPUT_UP] @ replicate 11 INPUT_IDLE @ [INPUT_DOWN]"
  by code_simp

end
